theory Spec2Isabelle
  imports Complex_Main "HOL-Library.Multiset"
begin

section \<open>Arrays\<close>

text \<open>
  The notebook \<^verbatim>\<open>Tutorials/overfitting_regularization.ipynb\<close> works on numpy arrays of
  floating-point numbers. Here a floating-point number is a \<^typ>\<open>real\<close>: rounding,
  infinities and NaN are outside the model. A one-dimensional array is a list; a
  two-dimensional array is its shape together with its entries. Only the entries inside
  the shape mean anything.
\<close>

datatype error = ValueError

type_synonym vec = "real list"

record mat =
  nrows :: nat
  ncols :: nat
  entry :: "nat \<Rightarrow> nat \<Rightarrow> real"

text \<open>\<^verbatim>\<open>np.arange(0, n)\<close>: the integers from 0 up to \<open>n - 1\<close>, none when \<open>n \<le> 0\<close>.\<close>

definition arange :: "int \<Rightarrow> nat list" where
  "arange n = [0..<nat n]"

text \<open>\<^verbatim>\<open>T.reshape(-1,1)\<close>: a one-dimensional array as a column.\<close>

definition reshape_col :: "vec \<Rightarrow> mat" where
  "reshape_col T = \<lparr>nrows = length T, ncols = 1, entry = (\<lambda>i j. T ! i)\<rparr>"

text \<open>
  \<^verbatim>\<open>np.power(X.reshape(-1,1), E.reshape(1,-1))\<close>: a column of bases against a row of
  exponents, broadcast to one entry for each pair.
\<close>

definition power_outer :: "vec \<Rightarrow> nat list \<Rightarrow> mat" where
  "power_outer X E = \<lparr>nrows = length X, ncols = length E, entry = (\<lambda>i j. (X ! i) ^ (E ! j))\<rparr>"

text \<open>\<^verbatim>\<open>A.T\<close>\<close>

definition transpose_m :: "mat \<Rightarrow> mat" where
  "transpose_m A = \<lparr>nrows = ncols A, ncols = nrows A, entry = (\<lambda>i j. entry A j i)\<rparr>"

text \<open>\<^verbatim>\<open>np.dot(A, B)\<close> of two-dimensional arrays; shapes that are not aligned raise.\<close>

definition dot :: "mat \<Rightarrow> mat \<Rightarrow> error + mat" where
  "dot A B =
     (if ncols A = nrows B
      then Inr \<lparr>nrows = nrows A, ncols = ncols B,
                entry = (\<lambda>i j. \<Sum>k<ncols A. entry A i k * entry B k j)\<rparr>
      else Inl ValueError)"

text \<open>\<^verbatim>\<open>np.eye(n)\<close>; a negative dimension raises.\<close>

definition eye :: "int \<Rightarrow> error + mat" where
  "eye n =
     (if n < 0 then Inl ValueError
      else Inr \<lparr>nrows = nat n, ncols = nat n, entry = (\<lambda>i j. if i = j then 1 else 0)\<rparr>)"

text \<open>A scalar times an array.\<close>

definition scale :: "real \<Rightarrow> mat \<Rightarrow> mat" where
  "scale c A = \<lparr>nrows = nrows A, ncols = ncols A, entry = (\<lambda>i j. c * entry A i j)\<rparr>"

text \<open>
  The sum of two arrays of one shape. The notebook adds only arrays of equal shape (both
  \<open>(M+1) \<times> (M+1)\<close>); numpy's broadcasting of unequal shapes is not modelled and is an
  error here.
\<close>

definition add :: "mat \<Rightarrow> mat \<Rightarrow> error + mat" where
  "add A B =
     (if nrows A = nrows B \<and> ncols A = ncols B
      then Inr \<lparr>nrows = nrows A, ncols = ncols A,
                entry = (\<lambda>i j. entry A i j + entry B i j)\<rparr>
      else Inl ValueError)"

text \<open>\<^verbatim>\<open>W.ravel()\<close>: the entries row by row.\<close>

definition ravel :: "mat \<Rightarrow> vec" where
  "ravel A = concat (map (\<lambda>i. map (entry A i) [0..<ncols A]) [0..<nrows A])"

text \<open>The rows of an array, as nested lists.\<close>

definition tolist :: "mat \<Rightarrow> real list list" where
  "tolist A = map (\<lambda>i. map (entry A i) [0..<ncols A]) [0..<nrows A]"

text \<open>
  The difference of two one-dimensional arrays, with numpy's broadcasting: equal lengths
  subtract entry by entry, an array of length one is stretched over the other, anything
  else raises.
\<close>

definition subtract :: "vec \<Rightarrow> vec \<Rightarrow> error + vec" where
  "subtract a b =
     (if length a = length b then Inr (map2 (-) a b)
      else if length a = 1 then Inr (map (\<lambda>y. hd a - y) b)
      else if length b = 1 then Inr (map (\<lambda>x. x - hd b) a)
      else Inl ValueError)"

text \<open>
  \<^verbatim>\<open>np.poly1d(W)\<close> keeps the coefficients, highest degree first, without leading zeros
  (and \<open>[0]\<close> when nothing is left); calling it evaluates by Horner's rule, as
  \<^verbatim>\<open>np.polyval\<close> does.
\<close>

definition poly1d :: "vec \<Rightarrow> vec" where
  "poly1d W = (let c = dropWhile (\<lambda>w. w = 0) W in if c = [] then [0] else c)"

definition polyval :: "vec \<Rightarrow> real \<Rightarrow> real" where
  "polyval p x = foldl (\<lambda>y pv. y * x + pv) 0 p"

section \<open>The notebook's functions\<close>

text \<open>
  The design matrix, as both solvers build it:
  \<^verbatim>\<open>A = np.power(X.reshape(-1,1), np.arange(0,M+1).reshape(1,-1))\<close>
\<close>

definition design :: "vec \<Rightarrow> int \<Rightarrow> mat" where
  "design X M = power_outer X (arange (M + 1))"

text \<open>
  \<^verbatim>\<open>np.linalg.pinv\<close> belongs to numpy, not to the notebook: the solvers take it as the
  parameter \<open>pinv\<close>.

  \<^verbatim>\<open>
  def polynomial_fit(X,T,M):
      A = np.power(X.reshape(-1,1),np.arange(0,M+1).reshape(1,-1))
      T = T.reshape(-1,1)
      W = np.dot(np.linalg.pinv(A),T)
      return W.ravel()
  \<close>
\<close>

definition polynomial_fit :: "(mat \<Rightarrow> mat) \<Rightarrow> vec \<Rightarrow> vec \<Rightarrow> int \<Rightarrow> error + vec" where
  "polynomial_fit pinv X T M =
     (let A = design X M;
          Tc = reshape_col T
      in case dot (pinv A) Tc of
           Inl e \<Rightarrow> Inl e
         | Inr W \<Rightarrow> Inr (ravel W))"

text \<open>
  \<^verbatim>\<open>
  def rms_error(X,T,W):
      p = np.poly1d(W)
      T_fit = p(X)
      E = np.sqrt(((T - T_fit)**2/T.size).sum())
      return E
  \<close>
\<close>

definition rms_error :: "vec \<Rightarrow> vec \<Rightarrow> vec \<Rightarrow> error + real" where
  "rms_error X T W =
     (let p = poly1d W;
          T_fit = map (polyval p) X
      in case subtract T T_fit of
           Inl e \<Rightarrow> Inl e
         | Inr D \<Rightarrow> Inr (sqrt (sum_list (map (\<lambda>d. d\<^sup>2 / real (length T)) D))))"

text \<open>
  \<^verbatim>\<open>
  def polynomial_fit_reg(X,T,M,lamb):
      N = X.shape[0]
      A = np.power(X.reshape(-1,1),np.arange(0,M+1).reshape(1,-1))
      lambda_matrix = lamb*N*np.eye(M+1)
      T = T.reshape(-1,1)
      aux = np.dot(A.T,A) + lambda_matrix
      aux = np.linalg.pinv(aux)
      aux2 = np.dot(A.T,T)
      W = np.dot(aux,aux2)
      return W.ravel()
  \<close>
\<close>

definition polynomial_fit_reg ::
  "(mat \<Rightarrow> mat) \<Rightarrow> vec \<Rightarrow> vec \<Rightarrow> int \<Rightarrow> real \<Rightarrow> error + vec" where
  "polynomial_fit_reg pinv X T M lamb =
     (let N = length X;
          A = design X M
      in case eye (M + 1) of
           Inl e \<Rightarrow> Inl e
         | Inr I \<Rightarrow>
             (let lambda_matrix = scale (lamb * real N) I;
                  Tc = reshape_col T
              in case dot (transpose_m A) A of
                   Inl e \<Rightarrow> Inl e
                 | Inr G \<Rightarrow>
                     (case add G lambda_matrix of
                        Inl e \<Rightarrow> Inl e
                      | Inr aux \<Rightarrow>
                          (let aux' = pinv aux
                           in case dot (transpose_m A) Tc of
                                Inl e \<Rightarrow> Inl e
                              | Inr aux2 \<Rightarrow>
                                  (case dot aux' aux2 of
                                     Inl e \<Rightarrow> Inl e
                                   | Inr W \<Rightarrow> Inr (ravel W))))))"

section \<open>Linear algebra on entries\<close>

text \<open>
  Products of arrays, read on their entries: a matrix with \<open>n\<close> columns times a vector,
  the inner product of two vectors of length \<open>n\<close>, the product of two matrices whose
  inner dimension is \<open>n\<close>, and the transpose.
\<close>

definition mv :: "nat \<Rightarrow> (nat \<Rightarrow> nat \<Rightarrow> real) \<Rightarrow> (nat \<Rightarrow> real) \<Rightarrow> nat \<Rightarrow> real" where
  "mv n a v i = (\<Sum>k<n. a i k * v k)"

definition ip :: "nat \<Rightarrow> (nat \<Rightarrow> real) \<Rightarrow> (nat \<Rightarrow> real) \<Rightarrow> real" where
  "ip n u v = (\<Sum>i<n. u i * v i)"

definition mm ::
  "nat \<Rightarrow> (nat \<Rightarrow> nat \<Rightarrow> real) \<Rightarrow> (nat \<Rightarrow> nat \<Rightarrow> real) \<Rightarrow> nat \<Rightarrow> nat \<Rightarrow> real" where
  "mm n a b i j = (\<Sum>k<n. a i k * b k j)"

definition tr :: "(nat \<Rightarrow> nat \<Rightarrow> real) \<Rightarrow> nat \<Rightarrow> nat \<Rightarrow> real" where
  "tr a i j = a j i"

text \<open>The sum of squared residuals of \<open>a v\<close> against \<open>t\<close>, over \<open>m\<close> rows.\<close>

definition sse ::
  "nat \<Rightarrow> nat \<Rightarrow> (nat \<Rightarrow> nat \<Rightarrow> real) \<Rightarrow> (nat \<Rightarrow> real) \<Rightarrow> (nat \<Rightarrow> real) \<Rightarrow> real" where
  "sse m n a t v = (\<Sum>i<m. (mv n a v i - t i)\<^sup>2)"

text \<open>The entries of \<open>a\<^sup>T a + \<mu> I\<close>, for \<open>a\<close> with \<open>m\<close> rows.\<close>

definition ridge :: "nat \<Rightarrow> (nat \<Rightarrow> nat \<Rightarrow> real) \<Rightarrow> real \<Rightarrow> nat \<Rightarrow> nat \<Rightarrow> real" where
  "ridge m a \<mu> i j = mm m (tr a) a i j + \<mu> * (if i = j then 1 else 0)"

section \<open>Notions of the specification\<close>

text \<open>
  The Moore-Penrose pseudo-inverse is known by the four Penrose conditions: \<open>P\<close> has the
  transposed shape of \<open>A\<close>, \<open>A P A = A\<close>, \<open>P A P = P\<close>, and \<open>A P\<close> and \<open>P A\<close> are symmetric.
  Every real matrix has exactly one such \<open>P\<close>. The theorems on the solvers ask that the
  parameter \<open>pinv\<close> returns it on the matrices the solver hands over.
\<close>

definition penrose :: "mat \<Rightarrow> mat \<Rightarrow> bool" where
  "penrose A P \<longleftrightarrow>
     nrows P = ncols A \<and> ncols P = nrows A \<and>
     (\<forall>i<nrows A. \<forall>j<ncols A.
        mm (nrows A) (mm (ncols A) (entry A) (entry P)) (entry A) i j = entry A i j) \<and>
     (\<forall>i<ncols A. \<forall>j<nrows A.
        mm (ncols A) (mm (nrows A) (entry P) (entry A)) (entry P) i j = entry P i j) \<and>
     (\<forall>i<nrows A. \<forall>j<nrows A.
        mm (ncols A) (entry A) (entry P) i j = mm (ncols A) (entry A) (entry P) j i) \<and>
     (\<forall>i<ncols A. \<forall>j<ncols A.
        mm (nrows A) (entry P) (entry A) i j = mm (nrows A) (entry P) (entry A) j i)"



definition l2norm :: "vec \<Rightarrow> real" where
  "l2norm W = sqrt (\<Sum>j<length W. (W ! j)\<^sup>2)"

text \<open>
  The matrix \<open>A\<^sup>T A + \<lambda> N I\<close> as the specification writes it: \<open>A\<close> the design matrix of
  \<open>X\<close> at degree \<open>M\<close>, \<open>N\<close> the number of samples, \<open>I\<close> the identity of size \<open>M + 1\<close>.
\<close>

definition ridge_matrix :: "vec \<Rightarrow> int \<Rightarrow> real \<Rightarrow> mat" where
  "ridge_matrix X M lamb =
     \<lparr>nrows = nat (M + 1), ncols = nat (M + 1),
      entry = (\<lambda>j k. (\<Sum>i<length X. entry (design X M) i j * entry (design X M) i k)
                      + lamb * real (length X) * (if j = k then 1 else 0))\<rparr>"


text \<open>
  Pseudo-inverses for the examples. For a matrix of rank at most one (a row, a column, a
  zero or an empty matrix) the Moore-Penrose inverse is the transpose divided by the sum
  of the squared entries; for an invertible \<open>2 \<times> 2\<close> matrix it is the inverse.
\<close>

definition pinv_rank1 :: "mat \<Rightarrow> mat" where
  "pinv_rank1 A =
     \<lparr>nrows = ncols A, ncols = nrows A,
      entry = (\<lambda>i j. entry A j i / (\<Sum>k<nrows A. \<Sum>l<ncols A. (entry A k l)\<^sup>2))\<rparr>"

definition pinv_2x2 :: "mat \<Rightarrow> mat" where
  "pinv_2x2 A =
     \<lparr>nrows = ncols A, ncols = nrows A,
      entry = (\<lambda>i j. (if i = j then entry A (1 - i) (1 - j) else - entry A i j)
                      / (entry A 0 0 * entry A 1 1 - entry A 0 1 * entry A 1 0))\<rparr>"




section \<open>Evaluation on examples\<close>

lemmas eval_sums = lessThan_Suc eval_nat_numeral All_less_Suc upt_rec nth_Cons'

lemmas eval_arrays = design_def power_outer_def arange_def ridge_matrix_def
  dot_def add_def scale_def eye_def transpose_m_def reshape_col_def ravel_def
  mm_def mv_def tr_def Let_def

section \<open>The design matrix\<close>

lemma design_shape: "nrows (design X M) = length X \<and> ncols (design X M) = nat (M + 1)"
  by (simp add: design_def power_outer_def arange_def)

lemma design_entry: "j < nat (M + 1) \<Longrightarrow> entry (design X M) i j = (X ! i) ^ j"
  by (simp add: design_def power_outer_def arange_def)

text \<open>
  C4. For inputs \<open>X\<close> of length \<open>N\<close> and a degree \<open>M \<ge> 0\<close> the design matrix has \<open>N\<close> rows
  and \<open>M + 1\<close> columns, its entry \<open>(i, j)\<close> is \<open>x\<^sub>i\<close> to the power \<open>j\<close>, so column 0 holds
  ones only; on \<open>X = [2, 3]\<close> and \<open>M = 2\<close> it is \<open>[[1, 2, 4], [1, 3, 9]]\<close>.
\<close>

theorem design_matrix_entries:
  "0 \<le> M \<Longrightarrow>
     nrows (design X M) = length X \<and> int (ncols (design X M)) = M + 1 \<and>
     (\<forall>i<length X. \<forall>j<ncols (design X M). entry (design X M) i j = (X ! i) ^ j) \<and>
     (\<forall>i<length X. entry (design X M) i 0 = 1) \<and>
     tolist (design [2, 3] 2) = [[1, 2, 4], [1, 3, 9]]"
proof -
  assume M: "0 \<le> M"
  have "tolist (design [2, 3] 2) = [[1, 2, 4], [1, 3, 9]]"
    by (simp add: tolist_def design_def power_outer_def arange_def upt_rec nth_Cons')
  with M show ?thesis
    by (simp add: design_shape design_entry)
qed

theorem design_matrix_entries_witness:
  "(0::int) \<le> 1 \<and> nrows (design [5, 7, 11] 1) = 3 \<and> ncols (design [5, 7, 11] 1) = 2 \<and>
   tolist (design [5, 7, 11] 1) = [[1, 5], [1, 7], [1, 11]] \<and>
   entry (design [5, 7, 11] 1) 2 1 = 11 \<and> entry (design [5, 7, 11] 1) 2 0 = 1"
  using design_matrix_entries [of 1 "[5, 7, 11]"]
  by (simp add: tolist_def upt_rec)


section \<open>The RMS error\<close>

lemma foldl_horner:
  "foldl (\<lambda>y pv. y * x + pv) a p =
     a * (x::real) ^ length p + (\<Sum>k<length p. p ! k * x ^ (length p - 1 - k))"
proof (induction p arbitrary: a)
  case Nil
  show ?case by simp
next
  case (Cons c p)
  have "(\<Sum>k<Suc (length p). (c # p) ! k * x ^ (length p - k)) =
        c * x ^ length p + (\<Sum>k<length p. p ! k * x ^ (length p - 1 - k))"
    by (simp only: sum.lessThan_Suc_shift) simp
  with Cons.IH [of "a * x + c"] show ?case
    by (simp add: algebra_simps)
qed

lemma polyval_sum:
  "polyval p x = (\<Sum>k<length p. p ! k * x ^ (length p - 1 - k))"
  by (simp add: polyval_def foldl_horner)

lemma polyval_Cons_zero: "polyval (0 # p) x = polyval p x"
  by (simp add: polyval_def)

lemma polyval_dropWhile: "polyval (dropWhile (\<lambda>w. w = 0) W) x = polyval W x"
  by (induction W) (simp_all add: polyval_Cons_zero)

text \<open>Dropping the leading zeros does not change the values of the polynomial.\<close>

lemma polyval_poly1d: "polyval (poly1d W) x = polyval W x"
proof (cases "dropWhile (\<lambda>w. w = 0) W = []")
  case True
  have "polyval W x = polyval (dropWhile (\<lambda>w. w = 0) W) x"
    by (simp add: polyval_dropWhile)
  also have "\<dots> = polyval [0] x"
    by (simp add: True polyval_def)
  finally show ?thesis
    by (simp add: poly1d_def True)
next
  case False
  have "poly1d W = dropWhile (\<lambda>w. w = 0) W"
    unfolding poly1d_def Let_def using False by (rule if_not_P)
  then show ?thesis
    by (simp only: polyval_dropWhile)
qed

lemma rms_error_zip:
  assumes "length T = length X"
  shows "rms_error X T W =
           Inr (sqrt (sum_list (map (\<lambda>(x, t). (t - polyval W x)\<^sup>2 / real (length T)) (zip X T))))"
proof -
  have "map (\<lambda>d. d\<^sup>2 / real (length T)) (map2 (-) T (map (polyval (poly1d W)) X)) =
        map (\<lambda>(x, t). (t - polyval W x)\<^sup>2 / real (length T)) (zip X T)"
    using assms by (intro nth_equalityI) (simp_all add: polyval_poly1d)
  then show ?thesis
    using assms by (simp add: rms_error_def subtract_def)
qed

text \<open>
  C1. For non-empty inputs \<open>X\<close>, targets \<open>T\<close> of the same length \<open>N\<close> and coefficients
  \<open>W\<close> (highest degree first), the RMS error is the square root of \<open>1/N\<close> times the sum
  of the squared residuals between the polynomial of \<open>W\<close> at each \<open>x\<^sub>i\<close> and \<open>t\<^sub>i\<close>:
  the plain root mean square, with no factor 2.
\<close>

theorem rms_error_plain_rms:
  assumes "X \<noteq> []" and "length T = length X"
  shows "rms_error X T W =
     Inr (sqrt (1 / real (length X) *
        (\<Sum>i<length X. (T ! i - (\<Sum>k<length W. W ! k * (X ! i) ^ (length W - 1 - k)))\<^sup>2)))"
proof -
  let ?f = "\<lambda>(x, t). (t - polyval W x)\<^sup>2 / real (length T)"
  have "sum_list (map ?f (zip X T)) = (\<Sum>i<length X. ?f (zip X T ! i))"
    using assms by (simp add: sum_list_sum_nth atLeast0LessThan)
  also have "\<dots> = (\<Sum>i<length X. (T ! i - polyval W (X ! i))\<^sup>2 / real (length X))"
    using assms by (intro sum.cong) simp_all
  also have "\<dots> = 1 / real (length X) * (\<Sum>i<length X. (T ! i - polyval W (X ! i))\<^sup>2)"
    by (simp add: sum_divide_distrib)
  finally show ?thesis
    using assms by (simp add: rms_error_zip polyval_sum)
qed

theorem rms_error_plain_rms_witness:
  "[0, 1, 2] \<noteq> ([] :: vec) \<and> length [1, 3, 11 :: real] = length [0, 1, 2 :: real] \<and>
   rms_error [0, 1, 2] [1, 3, 11] [2, 0, 1] = Inr (sqrt (4 / 3))"
  using rms_error_plain_rms [of "[0, 1, 2]" "[1, 3, 11]" "[2, 0, 1]"]
  by (simp add: lessThan_Suc eval_nat_numeral)

text \<open>
  C10. Permuting the pairs \<open>(x\<^sub>i, t\<^sub>i)\<close> does not change the RMS error: for inputs and
  targets of equal length it depends only on the multiset of the pairs.
\<close>

theorem rms_error_permutation:
  assumes "length T = length X" and "length T' = length X'"
    and "mset (zip X' T') = mset (zip X T)"
  shows "rms_error X' T' W = rms_error X T W"
proof -
  have "length (zip X' T') = length (zip X T)"
    using assms(3) by (rule mset_eq_length)
  then have len: "length T' = length T"
    using assms by simp
  let ?f = "\<lambda>(x, t). (t - polyval W x)\<^sup>2 / real (length T)"
  have "mset (map ?f (zip X' T')) = mset (map ?f (zip X T))"
    using assms(3) by simp
  then have "sum_mset (mset (map ?f (zip X' T'))) = sum_mset (mset (map ?f (zip X T)))"
    by (rule arg_cong)
  then have "sum_list (map ?f (zip X' T')) = sum_list (map ?f (zip X T))"
    by (simp only: sum_mset_sum_list)
  then show ?thesis
    using assms by (simp add: rms_error_zip len)
qed

theorem rms_error_permutation_witness:
  "length [1, 3, 11 :: real] = length [0, 1, 2 :: real] \<and>
   length [11, 1, 3 :: real] = length [2, 0, 1 :: real] \<and>
   mset (zip [2, 0, 1 :: real] [11, 1, 3 :: real]) = mset (zip [0, 1, 2] [1, 3, 11]) \<and>
   rms_error [2, 0, 1] [11, 1, 3] [2, 0, 1] = rms_error [0, 1, 2] [1, 3, 11] [2, 0, 1] \<and>
   rms_error [0, 1, 2] [1, 3, 11] [2, 0, 1] = Inr (sqrt (4 / 3))"
proof -
  have m: "mset (zip [2, 0, 1 :: real] [11, 1, 3 :: real]) = mset (zip [0, 1, 2] [1, 3, 11])"
    by (simp add: add_mset_commute)
  have "rms_error [0, 1, 2] [1, 3, 11] [2, 0, 1] = Inr (sqrt (4 / 3))"
    by (simp add: rms_error_def subtract_def poly1d_def polyval_def)
  with m rms_error_permutation [of "[1, 3, 11]" "[0, 1, 2]" "[11, 1, 3]" "[2, 0, 1]" "[2, 0, 1]"]
  show ?thesis by simp
qed

section \<open>Least squares\<close>

lemma mv_cong: "(\<And>k. k < n \<Longrightarrow> a i k = b i k) \<Longrightarrow> (\<And>k. k < n \<Longrightarrow> u k = v k) \<Longrightarrow> mv n a u i = mv n b v i"
  by (simp add: mv_def)

lemma ip_cong: "(\<And>k. k < n \<Longrightarrow> u k = u' k) \<Longrightarrow> (\<And>k. k < n \<Longrightarrow> v k = v' k) \<Longrightarrow> ip n u v = ip n u' v'"
  by (simp add: ip_def)

lemma mv_diff: "mv n a (\<lambda>k. u k - v k) i = mv n a u i - mv n a v i"
  by (simp add: mv_def right_diff_distrib sum_subtractf)

lemma mv_add: "mv n a (\<lambda>k. u k + v k) i = mv n a u i + mv n a v i"
  by (simp add: mv_def distrib_left sum.distrib)

lemma ip_commute: "ip n u v = ip n v u"
  by (simp add: ip_def mult.commute)

lemma ip_nonneg: "0 \<le> ip n v v"
  by (simp add: ip_def sum_nonneg)

lemma ip_self_zero: "ip n v v = 0 \<Longrightarrow> i < n \<Longrightarrow> v i = 0"
proof -
  assume z: "ip n v v = 0" and i: "i < n"
  have "(\<Sum>k\<in>{..<n}. v k * v k) = 0 \<longleftrightarrow> (\<forall>k\<in>{..<n}. v k * v k = 0)"
    by (rule sum_nonneg_eq_0_iff) simp_all
  with z i show "v i = 0"
    by (simp add: ip_def)
qed

lemma ip_zero_right: "(\<And>k. k < n \<Longrightarrow> v k = 0) \<Longrightarrow> ip n u v = 0"
  by (simp add: ip_def)

lemma ip_add_self:
  "ip n (\<lambda>k. u k + v k) (\<lambda>k. u k + v k) = ip n u u + 2 * ip n u v + ip n v v"
  by (simp add: ip_def algebra_simps sum.distrib sum_distrib_left)

lemma ip_scale_left: "ip n (\<lambda>k. c * u k) v = c * ip n u v"
  by (simp add: ip_def sum_distrib_left mult.assoc)

lemma ip_add_scale_left: "ip n (\<lambda>k. u k + c * v k) w = ip n u w + c * ip n v w"
  by (simp add: ip_def algebra_simps sum.distrib sum_distrib_left)

lemma ip_diff_left: "ip n (\<lambda>k. u k - v k) w = ip n u w - ip n v w"
  by (simp add: ip_def left_diff_distrib sum_subtractf)

lemma ip_adjoint: "ip m u (mv n a v) = ip n (mv m (tr a) u) v"
proof -
  have "ip m u (mv n a v) = (\<Sum>i<m. \<Sum>k<n. u i * (a i k * v k))"
    by (simp add: ip_def mv_def sum_distrib_left)
  also have "\<dots> = (\<Sum>k<n. \<Sum>i<m. u i * (a i k * v k))"
    by (rule sum.swap)
  also have "\<dots> = ip n (mv m (tr a) u) v"
    by (simp add: ip_def mv_def tr_def sum_distrib_left sum_distrib_right mult_ac)
  finally show ?thesis .
qed

lemma mv_assoc: "mv n a (mv m p t) i = mv m (mm n a p) t i"
proof -
  have "mv n a (mv m p t) i = (\<Sum>l<n. \<Sum>k<m. a i l * (p l k * t k))"
    by (simp add: mv_def sum_distrib_left)
  also have "\<dots> = (\<Sum>k<m. \<Sum>l<n. a i l * (p l k * t k))"
    by (rule sum.swap)
  also have "\<dots> = mv m (mm n a p) t i"
    by (simp add: mv_def mm_def sum_distrib_left sum_distrib_right mult_ac)
  finally show ?thesis .
qed

text \<open>Penrose conditions 1 and 3 give the normal equations.\<close>

lemma normal_equations:
  assumes P1: "\<And>i j. i < m \<Longrightarrow> j < n \<Longrightarrow> mm m (mm n a p) a i j = a i j"
    and P3: "\<And>i j. i < m \<Longrightarrow> j < m \<Longrightarrow> mm n a p i j = mm n a p j i"
    and j: "j < n"
  shows "mv m (tr a) (mv n a (mv m p t)) j = mv m (tr a) t j"
proof -
  have "mv m (tr a) (mv n a (mv m p t)) j = mv m (tr a) (mv m (mm n a p) t) j"
    by (rule mv_cong) (simp_all add: mv_assoc)
  also have "\<dots> = mv m (mm m (tr a) (mm n a p)) t j"
    by (rule mv_assoc)
  also have "\<dots> = mv m (tr a) t j"
  proof (rule mv_cong)
    fix k assume k: "k < m"
    have "mm m (tr a) (mm n a p) j k = (\<Sum>i<m. mm n a p k i * a i j)"
      unfolding mm_def [of m] tr_def
      by (rule sum.cong) (simp_all add: P3 k mult.commute)
    also have "\<dots> = mm m (mm n a p) a k j"
      by (simp add: mm_def)
    also have "\<dots> = tr a j k"
      using P1 [OF k j] by (simp add: tr_def)
    finally show "mm m (tr a) (mm n a p) j k = tr a j k" .
  qed simp
  finally show ?thesis .
qed

text \<open>Penrose conditions 2 and 4 put the solution in the range of the transpose.\<close>

lemma solution_in_range:
  assumes P2: "\<And>i j. i < n \<Longrightarrow> j < m \<Longrightarrow> mm n (mm m p a) p i j = p i j"
    and P4: "\<And>i j. i < n \<Longrightarrow> j < n \<Longrightarrow> mm m p a i j = mm m p a j i"
    and j: "j < n"
  shows "mv m p t j = mv m (tr a) (mv n (tr p) (mv m p t)) j"
proof -
  let ?w = "mv m p t"
  have "mv m p t j = mv m (mm n (mm m p a) p) t j"
    by (rule mv_cong) (simp_all add: P2 j)
  also have "\<dots> = mv n (mm m p a) ?w j"
    by (rule mv_assoc [symmetric])
  also have "\<dots> = mv n (mm m (tr a) (tr p)) ?w j"
  proof (rule mv_cong)
    fix l assume l: "l < n"
    have "mm m p a j l = mm m p a l j"
      by (rule P4 [OF j l])
    also have "\<dots> = mm m (tr a) (tr p) j l"
      by (simp add: mm_def tr_def mult.commute)
    finally show "mm m p a j l = mm m (tr a) (tr p) j l" .
  qed simp
  also have "\<dots> = mv m (tr a) (mv n (tr p) ?w) j"
    by (rule mv_assoc [symmetric])
  finally show ?thesis .
qed

text \<open>The ridge functional around a solution of the ridge normal equations.\<close>

lemma ridge_expansion:
  assumes RNE: "\<And>j. j < n \<Longrightarrow> mv m (tr a) (mv n a w) j + \<mu> * w j = mv m (tr a) t j"
  shows "sse m n a t v + \<mu> * ip n v v =
         sse m n a t w + \<mu> * ip n w w
         + ip m (mv n a (\<lambda>k. v k - w k)) (mv n a (\<lambda>k. v k - w k))
         + \<mu> * ip n (\<lambda>k. v k - w k) (\<lambda>k. v k - w k)"
proof -
  let ?d = "\<lambda>k. v k - w k"
  let ?e = "mv n a ?d"
  let ?r = "\<lambda>i. mv n a w i - t i"
  have cross: "ip m ?e ?r = - \<mu> * ip n ?d w"
  proof -
    have "ip m ?e ?r = ip m ?r ?e"
      by (rule ip_commute)
    also have "\<dots> = ip n (mv m (tr a) ?r) ?d"
      by (rule ip_adjoint)
    also have "\<dots> = ip n (\<lambda>j. - \<mu> * w j) ?d"
    proof (rule ip_cong)
      fix j assume j: "j < n"
      have "mv m (tr a) ?r j = mv m (tr a) (mv n a w) j - mv m (tr a) t j"
        by (rule mv_diff)
      with RNE [OF j] show "mv m (tr a) ?r j = - \<mu> * w j"
        by simp
    qed simp
    also have "\<dots> = - \<mu> * ip n w ?d"
      by (rule ip_scale_left)
    finally show ?thesis
      by (simp add: ip_commute)
  qed
  have "sse m n a t v = ip m (\<lambda>i. ?e i + ?r i) (\<lambda>i. ?e i + ?r i)"
    by (simp add: sse_def ip_def mv_diff power2_eq_square)
  also have "\<dots> = ip m ?e ?e + 2 * ip m ?e ?r + ip m ?r ?r"
    by (rule ip_add_self)
  finally have s: "sse m n a t v = ip m ?e ?e + 2 * ip m ?e ?r + sse m n a t w"
    by (simp add: sse_def ip_def power2_eq_square)
  have "ip n v v = ip n (\<lambda>k. ?d k + w k) (\<lambda>k. ?d k + w k)"
    by simp
  also have "\<dots> = ip n ?d ?d + 2 * ip n ?d w + ip n w w"
    by (rule ip_add_self)
  finally have v: "ip n v v = ip n ?d ?d + 2 * ip n ?d w + ip n w w" .
  show ?thesis
    unfolding s v cross by (simp add: algebra_simps)
qed







lemma ridge_sym: "tr (ridge m a \<mu>) = ridge m a \<mu>"
  by (rule ext, rule ext) (simp add: ridge_def tr_def mm_def mult.commute)

lemma mv_ridge:
  assumes "j < n"
  shows "mv n (ridge m a \<mu>) y j = mv m (tr a) (mv n a y) j + \<mu> * y j"
proof -
  have "(\<Sum>l<n. (if j = l then 1 else 0) * y l) = (\<Sum>l<n. if l = j then y l else 0)"
    by (rule sum.cong) auto
  then have "(\<Sum>l<n. (if j = l then 1 else 0) * y l) = y j"
    using assms by (simp add: sum.delta)
  then have "(\<Sum>l<n. \<mu> * (if j = l then 1 else 0) * y l) = \<mu> * y j"
    by (simp add: mult.assoc flip: sum_distrib_left)
  then have "mv n (ridge m a \<mu>) y j = mv n (mm m (tr a) a) y j + \<mu> * y j"
    by (simp add: mv_def ridge_def distrib_right sum.distrib)
  then show ?thesis
    by (simp add: mv_assoc)
qed

lemma ridge_normal_equations:
  assumes P1: "\<And>i j. i < n \<Longrightarrow> j < n \<Longrightarrow>
                 mm n (mm n (ridge m a \<mu>) g) (ridge m a \<mu>) i j = ridge m a \<mu> i j"
    and P3: "\<And>i j. i < n \<Longrightarrow> j < n \<Longrightarrow> mm n (ridge m a \<mu>) g i j = mm n (ridge m a \<mu>) g j i"
    and \<mu>: "0 \<le> \<mu>"
    and j: "j < n"
  shows "mv m (tr a) (mv n a (mv n g (mv m (tr a) t))) j + \<mu> * mv n g (mv m (tr a) t) j =
         mv m (tr a) t j"
proof -
  let ?k = "ridge m a \<mu>"
  let ?b = "mv m (tr a) t"
  let ?w = "mv n g ?b"
  let ?y = "\<lambda>j. mv n ?k ?w j - ?b j"
  let ?r = "\<lambda>i. mv n a ?w i - t i"
  have ky: "mv n ?k ?y l = 0" if "l < n" for l
    using normal_equations [of n n ?k g l ?b, OF P1 P3 that]
    by (simp add: mv_diff ridge_sym)
  have "ip n ?y (mv n ?k ?y) = 0"
    by (rule ip_zero_right) (rule ky)
  moreover have "ip n ?y (mv n ?k ?y) = ip m (mv n a ?y) (mv n a ?y) + \<mu> * ip n ?y ?y"
  proof -
    have "ip n ?y (mv n ?k ?y) = ip n (\<lambda>l. mv m (tr a) (mv n a ?y) l + \<mu> * ?y l) ?y"
      unfolding ip_commute [of n ?y]
      by (rule ip_cong) (simp_all add: mv_ridge)
    also have "\<dots> = ip n (mv m (tr a) (mv n a ?y)) ?y + \<mu> * ip n ?y ?y"
      by (rule ip_add_scale_left)
    finally show ?thesis
      by (simp add: ip_adjoint [symmetric])
  qed
  ultimately have sum0: "ip m (mv n a ?y) (mv n a ?y) + \<mu> * ip n ?y ?y = 0"
    by simp
  have n1: "0 \<le> ip m (mv n a ?y) (mv n a ?y)" and n2: "0 \<le> \<mu> * ip n ?y ?y"
    using \<mu> by (simp_all add: ip_nonneg)
  from sum0 n1 n2 have ay: "ip m (mv n a ?y) (mv n a ?y) = 0" and my: "\<mu> * ip n ?y ?y = 0"
    by linarith+
  have "ip n ?y ?y = 0"
  proof (cases "\<mu> = 0")
    case False
    with my show ?thesis by simp
  next
    case True
    have zero: "\<And>i. i < m \<Longrightarrow> mv n a ?y i = 0"
      using ay by (rule ip_self_zero)
    have "ip n ?y ?y = ip n (mv m (tr a) ?r) ?y"
      by (rule ip_cong) (simp_all add: mv_ridge True mv_diff)
    also have "\<dots> = ip m ?r (mv n a ?y)"
      by (rule ip_adjoint [symmetric])
    also have "\<dots> = 0"
      by (rule ip_zero_right) (rule zero)
    finally show ?thesis .
  qed
  then have "?y j = 0"
    using j by (rule ip_self_zero)
  then show ?thesis
    using mv_ridge [OF j, of m a \<mu> ?w] by simp
qed

lemma ridge_shrinks:
  assumes RNE1: "\<And>j. j < n \<Longrightarrow> mv m (tr a) (mv n a w1) j + \<mu>1 * w1 j = mv m (tr a) t j"
    and RNE2: "\<And>j. j < n \<Longrightarrow> mv m (tr a) (mv n a w2) j + \<mu>2 * w2 j = mv m (tr a) t j"
    and "0 \<le> \<mu>1" and "\<mu>1 < \<mu>2"
  shows "ip n w2 w2 \<le> ip n w1 w1"
proof -
  let ?d = "\<lambda>k. w2 k - w1 k" and ?d' = "\<lambda>k. w1 k - w2 k"
  have e1: "sse m n a t w2 + \<mu>1 * ip n w2 w2 =
        sse m n a t w1 + \<mu>1 * ip n w1 w1 + ip m (mv n a ?d) (mv n a ?d) + \<mu>1 * ip n ?d ?d"
    by (rule ridge_expansion [OF RNE1])
  have e2: "sse m n a t w1 + \<mu>2 * ip n w1 w1 =
        sse m n a t w2 + \<mu>2 * ip n w2 w2 + ip m (mv n a ?d') (mv n a ?d') + \<mu>2 * ip n ?d' ?d'"
    by (rule ridge_expansion [OF RNE2])
  have "0 \<le> ip m (mv n a ?d) (mv n a ?d) + \<mu>1 * ip n ?d ?d"
    using assms(3) by (simp add: ip_nonneg)
  moreover have "0 \<le> ip m (mv n a ?d') (mv n a ?d') + \<mu>2 * ip n ?d' ?d'"
    using assms(3,4) by (simp add: ip_nonneg)
  ultimately have "\<mu>1 * ip n w1 w1 + \<mu>2 * ip n w2 w2 \<le> \<mu>1 * ip n w2 w2 + \<mu>2 * ip n w1 w1"
    using e1 e2 by linarith
  then have "(\<mu>2 - \<mu>1) * ip n w2 w2 \<le> (\<mu>2 - \<mu>1) * ip n w1 w1"
    by (simp add: algebra_simps)
  with assms(4) show ?thesis
    by simp
qed

section \<open>The solvers\<close>

lemma ravel_col: "ncols A = 1 \<Longrightarrow> ravel A = map (\<lambda>i. entry A i 0) [0..<nrows A]"
  by (simp add: ravel_def concat_map_singleton)

lemma penrose_shape: "penrose A P \<Longrightarrow> nrows P = ncols A \<and> ncols P = nrows A"
  by (simp add: penrose_def)

lemma penrose1:
  "penrose A P \<Longrightarrow> i < nrows A \<Longrightarrow> j < ncols A \<Longrightarrow>
     mm (nrows A) (mm (ncols A) (entry A) (entry P)) (entry A) i j = entry A i j"
  by (simp add: penrose_def)

lemma penrose2:
  "penrose A P \<Longrightarrow> i < ncols A \<Longrightarrow> j < nrows A \<Longrightarrow>
     mm (ncols A) (mm (nrows A) (entry P) (entry A)) (entry P) i j = entry P i j"
  by (simp add: penrose_def)

lemma penrose3:
  "penrose A P \<Longrightarrow> i < nrows A \<Longrightarrow> j < nrows A \<Longrightarrow>
     mm (ncols A) (entry A) (entry P) i j = mm (ncols A) (entry A) (entry P) j i"
  by (simp add: penrose_def)

lemma penrose4:
  "penrose A P \<Longrightarrow> i < ncols A \<Longrightarrow> j < ncols A \<Longrightarrow>
     mm (nrows A) (entry P) (entry A) i j = mm (nrows A) (entry P) (entry A) j i"
  by (simp add: penrose_def)

lemma polynomial_fit_unfold:
  assumes "ncols (pinv (design X M)) = length T"
  shows "polynomial_fit pinv X T M =
           Inr (map (mv (length T) (entry (pinv (design X M))) ((!) T))
                  [0..<nrows (pinv (design X M))])"
  using assms
  by (simp add: polynomial_fit_def Let_def dot_def reshape_col_def ravel_col mv_def)

lemma ridge_matrix_entry:
  "entry (ridge_matrix X M lamb) =
     ridge (length X) (entry (design X M)) (lamb * real (length X))"
  by (rule ext, rule ext) (simp add: ridge_matrix_def ridge_def mm_def tr_def)

lemma ridge_matrix_shape:
  "nrows (ridge_matrix X M lamb) = nat (M + 1) \<and> ncols (ridge_matrix X M lamb) = nat (M + 1)"
  by (simp add: ridge_matrix_def)

lemma polynomial_fit_reg_unfold:
  assumes "- 1 \<le> M" and "length T = length X"
    and "ncols (pinv (ridge_matrix X M lamb)) = nat (M + 1)"
  shows "polynomial_fit_reg pinv X T M lamb =
           Inr (map (mv (nat (M + 1)) (entry (pinv (ridge_matrix X M lamb)))
                       (mv (length X) (tr (entry (design X M))) ((!) T)))
                  [0..<nrows (pinv (ridge_matrix X M lamb))])"
proof -
  let ?A = "design X M"
  have G: "dot (transpose_m ?A) ?A =
        Inr \<lparr>nrows = nat (M + 1), ncols = nat (M + 1),
             entry = (\<lambda>j k. \<Sum>i<length X. entry ?A i j * entry ?A i k)\<rparr>"
    by (simp add: dot_def transpose_m_def design_shape)
  have I: "eye (M + 1) =
        Inr \<lparr>nrows = nat (M + 1), ncols = nat (M + 1), entry = (\<lambda>i j. if i = j then 1 else 0)\<rparr>"
    using assms(1) by (simp add: eye_def)
  have aux: "add \<lparr>nrows = nat (M + 1), ncols = nat (M + 1),
                  entry = (\<lambda>j k. \<Sum>i<length X. entry ?A i j * entry ?A i k)\<rparr>
               (scale (lamb * real (length X))
                  \<lparr>nrows = nat (M + 1), ncols = nat (M + 1),
                   entry = (\<lambda>i j. if i = j then 1 else 0)\<rparr>) =
             Inr (ridge_matrix X M lamb)"
    by (simp add: add_def scale_def ridge_matrix_def)
  have aux2: "dot (transpose_m ?A) (reshape_col T) =
        Inr \<lparr>nrows = nat (M + 1), ncols = Suc 0,
             entry = (\<lambda>j k. mv (length X) (tr (entry ?A)) ((!) T) j)\<rparr>"
    using assms(2) by (simp add: dot_def transpose_m_def reshape_col_def design_shape mv_def tr_def)
  have W: "dot (pinv (ridge_matrix X M lamb))
             \<lparr>nrows = nat (M + 1), ncols = Suc 0,
              entry = (\<lambda>j k. mv (length X) (tr (entry ?A)) ((!) T) j)\<rparr> =
        Inr \<lparr>nrows = nrows (pinv (ridge_matrix X M lamb)), ncols = Suc 0,
             entry = (\<lambda>j k. mv (nat (M + 1)) (entry (pinv (ridge_matrix X M lamb)))
                               (mv (length X) (tr (entry ?A)) ((!) T)) j)\<rparr>"
    using assms(3) by (simp add: dot_def mv_def [of "nat (M + 1)"])
  show ?thesis
    by (simp add: polynomial_fit_reg_def Let_def G I aux aux2 W ravel_col)
qed

lemma plain_solver_facts:
  assumes pen: "penrose (design X M) (pinv (design X M))" and len: "length T = length X"
  shows "\<exists>w u. polynomial_fit pinv X T M = Inr (map w [0..<nat (M + 1)]) \<and>
           (\<forall>j<nat (M + 1).
              mv (length X) (tr (entry (design X M))) (mv (nat (M + 1)) (entry (design X M)) w) j =
              mv (length X) (tr (entry (design X M))) ((!) T) j) \<and>
           (\<forall>j<nat (M + 1). w j = mv (length X) (tr (entry (design X M))) u j)"
proof -
  let ?A = "design X M" and ?P = "pinv (design X M)"
  let ?w = "mv (length X) (entry ?P) ((!) T)"
  let ?u = "mv (nat (M + 1)) (tr (entry ?P)) ?w"
  have shape: "nrows ?P = nat (M + 1)" "ncols ?P = length X"
    using penrose_shape [OF pen] by (simp_all add: design_shape)
  have "polynomial_fit pinv X T M = Inr (map ?w [0..<nat (M + 1)])"
    using polynomial_fit_unfold [of pinv X M T] shape len by simp
  moreover have "mv (length X) (tr (entry ?A)) (mv (nat (M + 1)) (entry ?A) ?w) j =
                 mv (length X) (tr (entry ?A)) ((!) T) j" if "j < nat (M + 1)" for j
    using penrose1 [OF pen] penrose3 [OF pen] that
    by (intro normal_equations) (simp_all add: design_shape)
  moreover have "?w j = mv (length X) (tr (entry ?A)) ?u j" if "j < nat (M + 1)" for j
    using penrose2 [OF pen] penrose4 [OF pen] that
    by (intro solution_in_range) (simp_all add: design_shape)
  ultimately show ?thesis
    by blast
qed

lemma reg_solver_facts:
  assumes M: "0 \<le> M" and len: "length T = length X" and lamb: "0 \<le> lamb"
    and pen: "penrose (ridge_matrix X M lamb) (pinv (ridge_matrix X M lamb))"
  shows "\<exists>w u. polynomial_fit_reg pinv X T M lamb = Inr (map w [0..<nat (M + 1)]) \<and>
           (\<forall>j<nat (M + 1).
              mv (length X) (tr (entry (design X M))) (mv (nat (M + 1)) (entry (design X M)) w) j
                + lamb * real (length X) * w j =
              mv (length X) (tr (entry (design X M))) ((!) T) j) \<and>
           (\<forall>j<nat (M + 1).
              w j = mv (length X) (tr (entry (design X M))) (mv (nat (M + 1)) (entry (design X M)) u) j
                      + lamb * real (length X) * u j)"
proof -
  let ?a = "entry (design X M)" and ?R = "ridge_matrix X M lamb"
  let ?n = "nat (M + 1)" and ?N = "length X" and ?\<mu> = "lamb * real (length X)"
  let ?g = "entry (pinv ?R)"
  let ?b = "mv ?N (tr ?a) ((!) T)"
  let ?w = "mv ?n ?g ?b"
  let ?u = "mv ?n (tr ?g) ?w"
  have shape: "nrows (pinv ?R) = ?n" "ncols (pinv ?R) = ?n"
    using penrose_shape [OF pen] by (simp_all add: ridge_matrix_shape)
  have \<mu>: "0 \<le> ?\<mu>"
    using lamb by simp
  have P1: "mm ?n (mm ?n (ridge ?N ?a ?\<mu>) ?g) (ridge ?N ?a ?\<mu>) i j = ridge ?N ?a ?\<mu> i j"
    if "i < ?n" "j < ?n" for i j
    using penrose1 [OF pen, of i j] that by (simp add: ridge_matrix_shape ridge_matrix_entry)
  have P2: "mm ?n (mm ?n ?g (ridge ?N ?a ?\<mu>)) ?g i j = ?g i j"
    if "i < ?n" "j < ?n" for i j
    using penrose2 [OF pen, of i j] that by (simp add: ridge_matrix_shape ridge_matrix_entry)
  have P3: "mm ?n (ridge ?N ?a ?\<mu>) ?g i j = mm ?n (ridge ?N ?a ?\<mu>) ?g j i"
    if "i < ?n" "j < ?n" for i j
    using penrose3 [OF pen, of i j] that by (simp add: ridge_matrix_shape ridge_matrix_entry)
  have P4: "mm ?n ?g (ridge ?N ?a ?\<mu>) i j = mm ?n ?g (ridge ?N ?a ?\<mu>) j i"
    if "i < ?n" "j < ?n" for i j
    using penrose4 [OF pen, of i j] that by (simp add: ridge_matrix_shape ridge_matrix_entry)
  have "polynomial_fit_reg pinv X T M lamb = Inr (map ?w [0..<?n])"
    using polynomial_fit_reg_unfold [of M T X pinv lamb] M len shape by simp
  moreover have "mv ?N (tr ?a) (mv ?n ?a ?w) j + ?\<mu> * ?w j = ?b j" if "j < ?n" for j
    using P1 P3 \<mu> that by (rule ridge_normal_equations)
  moreover have "?w j = mv ?N (tr ?a) (mv ?n ?a ?u) j + ?\<mu> * ?u j" if "j < ?n" for j
  proof -
    have "?w j = mv ?n (tr (ridge ?N ?a ?\<mu>)) ?u j"
      using P2 P4 that by (rule solution_in_range)
    then show ?thesis
      using that by (simp add: ridge_sym mv_ridge)
  qed
  ultimately show ?thesis
    by blast
qed




lemma l2norm_ip: "l2norm W = sqrt (ip (length W) ((!) W) ((!) W))"
  by (simp add: l2norm_def ip_def power2_eq_square)

lemma l2norm_map: "l2norm (map w [0..<n]) = sqrt (ip n w w)"
proof -
  have "ip n ((!) (map w [0..<n])) ((!) (map w [0..<n])) = ip n w w"
    by (rule ip_cong) simp_all
  then show ?thesis
    by (simp add: l2norm_ip)
qed

lemma ridge_matrix_cong:
  assumes "l1 * real (length X) = l2 * real (length X)"
  shows "ridge_matrix X M l1 = ridge_matrix X M l2"
  by (simp only: ridge_matrix_def assms)

lemma mv_no_columns: "mv 0 a v = (\<lambda>i. 0)"
  by (rule ext) (simp add: mv_def)

lemma mv_zero_vector: "mv n a (\<lambda>k. 0) = (\<lambda>i. 0)"
  by (rule ext) (simp add: mv_def)

lemma ridge_matrix_powers:
  assumes "j < nat (M + 1)" and "k < nat (M + 1)"
  shows "entry (ridge_matrix X M lamb) j k =
           (\<Sum>i<length X. (X ! i) ^ (j + k)) + (if j = k then lamb * real (length X) else 0)"
  using assms by (simp add: ridge_matrix_def design_entry power_add)

section \<open>Interpolation\<close>











section \<open>Properties of the solvers\<close>



text \<open>
  C7. For non-empty inputs and targets of the same length, the plain solver at degree 0
  returns a single coefficient, the mean of the targets.
\<close>

theorem plain_fit_degree_zero_mean:
  assumes "X \<noteq> []" and "length T = length X"
    and "penrose (design X 0) (pinv (design X 0))"
  shows "polynomial_fit pinv X T 0 = Inr [sum_list T / real (length T)]"
proof -
  let ?a = "entry (design X 0)" and ?N = "length X"
  obtain w u where fit: "polynomial_fit pinv X T 0 = Inr (map w [0..<nat (0 + 1)])"
    and NE: "\<And>j. j < nat (0 + 1) \<Longrightarrow>
               mv ?N (tr ?a) (mv (nat (0 + 1)) ?a w) j = mv ?N (tr ?a) ((!) T) j"
    using plain_solver_facts [where pinv = pinv, OF assms(3,2)] by blast
  have ones: "?a i 0 = 1" for i
    using design_entry [of 0 0 X i] by simp
  have "mv ?N (tr ?a) (mv (nat (0 + 1)) ?a w) 0 = real ?N * w 0"
    by (simp add: mv_def tr_def ones)
  moreover have "mv ?N (tr ?a) ((!) T) 0 = sum_list T"
    using assms(2) by (simp add: mv_def tr_def ones sum_list_sum_nth atLeast0LessThan)
  ultimately have "real ?N * w 0 = sum_list T"
    using NE [of 0] by simp
  then have "w 0 = sum_list T / real (length T)"
    using assms(1,2) by (simp add: field_simps)
  then show ?thesis
    using fit by simp
qed

theorem plain_fit_degree_zero_mean_witness:
  "[3, 5] \<noteq> ([] :: vec) \<and> length [2, 4 :: real] = length [3, 5 :: real] \<and>
   penrose (design [3, 5] 0) (pinv_rank1 (design [3, 5] 0)) \<and>
   polynomial_fit pinv_rank1 [3, 5] [2, 4] 0 = Inr [3]"
proof -
  have pen: "penrose (design [3, 5] 0) (pinv_rank1 (design [3, 5] 0))"
    by (simp add: penrose_def pinv_rank1_def eval_arrays eval_sums)
  have "polynomial_fit pinv_rank1 [3, 5] [2, 4] 0 = Inr [3]"
    using plain_fit_degree_zero_mean [where pinv = pinv_rank1, OF _ _ pen, of "[2, 4]"]
    by simp
  with pen show ?thesis
    by simp
qed






text \<open>
  C3. For inputs and targets of equal length \<open>N\<close> and a degree \<open>M \<ge> 0\<close>, the regularized
  solver returns \<open>pinv (A\<^sup>T A + \<lambda> N I) (A\<^sup>T T)\<close>: entry \<open>(j, k)\<close> of the matrix handed to the
  pseudo-inverse is \<open>\<Sum>\<^sub>i x\<^sub>i\<^sup>j\<^sup>+\<^sup>k\<close>, plus \<open>\<lambda> N\<close> on the diagonal (the penalty is scaled by the
  number of samples), and entry \<open>k\<close> of \<open>A\<^sup>T T\<close> is \<open>\<Sum>\<^sub>i x\<^sub>i\<^sup>k t\<^sub>i\<close>.
\<close>

theorem reg_fit_formula:
  assumes "0 \<le> M" and "length T = length X"
    and "nrows (pinv (ridge_matrix X M lamb)) = nat (M + 1)"
    and "ncols (pinv (ridge_matrix X M lamb)) = nat (M + 1)"
  shows "polynomial_fit_reg pinv X T M lamb =
           Inr (map (\<lambda>j. \<Sum>k<nat (M + 1). entry (pinv (ridge_matrix X M lamb)) j k *
                            (\<Sum>i<length X. (X ! i) ^ k * T ! i))
                  [0..<nat (M + 1)]) \<and>
         (\<forall>j<nat (M + 1). \<forall>k<nat (M + 1).
            entry (ridge_matrix X M lamb) j k =
              (\<Sum>i<length X. (X ! i) ^ (j + k)) + (if j = k then lamb * real (length X) else 0))"
proof -
  have "mv (nat (M + 1)) (entry (pinv (ridge_matrix X M lamb)))
          (mv (length X) (tr (entry (design X M))) ((!) T)) j =
        (\<Sum>k<nat (M + 1). entry (pinv (ridge_matrix X M lamb)) j k *
                            (\<Sum>i<length X. (X ! i) ^ k * T ! i))" for j
    unfolding mv_def [of "nat (M + 1)"]
    by (rule sum.cong) (simp_all add: mv_def tr_def design_entry)
  then show ?thesis
    using assms by (simp add: polynomial_fit_reg_unfold ridge_matrix_powers)
qed

theorem reg_fit_formula_witness:
  "(0 :: int) \<le> 1 \<and> length [1, 3 :: real] = length [0, 1 :: real] \<and>
   nrows (pinv_2x2 (ridge_matrix [0, 1] 1 1)) = nat (1 + 1) \<and>
   ncols (pinv_2x2 (ridge_matrix [0, 1] 1 1)) = nat (1 + 1) \<and>
   polynomial_fit_reg pinv_2x2 [0, 1] [1, 3] 1 1 = Inr [9 / 11, 8 / 11] \<and>
   tolist (ridge_matrix [0, 1] 1 1) = [[4, 1], [1, 3]]"
proof -
  have shape: "nrows (pinv_2x2 (ridge_matrix [0, 1] 1 1)) = nat (1 + 1)"
    "ncols (pinv_2x2 (ridge_matrix [0, 1] 1 1)) = nat (1 + 1)"
    by (simp_all add: pinv_2x2_def ridge_matrix_def)
  have "polynomial_fit_reg pinv_2x2 [0, 1] [1, 3] 1 1 = Inr [9 / 11, 8 / 11]"
    using reg_fit_formula [where pinv = pinv_2x2 and T = "[1, 3]", OF _ _ shape]
    by (simp add: pinv_2x2_def eval_arrays eval_sums)
  moreover have "tolist (ridge_matrix [0, 1] 1 1) = [[4, 1], [1, 3]]"
    by (simp add: tolist_def eval_arrays eval_sums)
  ultimately show ?thesis
    using shape by simp
qed

text \<open>
  C8. With inputs, targets and degree fixed, a larger regularization strength does not
  give a larger coefficient norm: for \<open>0 \<le> \<lambda>\<^sub>1 \<le> \<lambda>\<^sub>2\<close> the Euclidean norm of the
  regularized solution at \<open>\<lambda>\<^sub>2\<close> is at most the one at \<open>\<lambda>\<^sub>1\<close> (on the whole range, so
  also for large \<open>\<lambda>\<close>).
\<close>

theorem reg_shrinkage:
  assumes "0 \<le> M" and "length T = length X" and "0 \<le> l1" and "l1 \<le> l2"
    and "penrose (ridge_matrix X M l1) (pinv (ridge_matrix X M l1))"
    and "penrose (ridge_matrix X M l2) (pinv (ridge_matrix X M l2))"
  shows "\<exists>W1 W2. polynomial_fit_reg pinv X T M l1 = Inr W1 \<and>
           polynomial_fit_reg pinv X T M l2 = Inr W2 \<and> l2norm W2 \<le> l2norm W1"
proof -
  let ?a = "entry (design X M)" and ?n = "nat (M + 1)" and ?N = "length X"
  have l2: "0 \<le> l2"
    using assms(3,4) by simp
  obtain w1 u1 where fit1: "polynomial_fit_reg pinv X T M l1 = Inr (map w1 [0..<?n])"
    and RNE1: "\<And>j. j < ?n \<Longrightarrow>
        mv ?N (tr ?a) (mv ?n ?a w1) j + l1 * real ?N * w1 j = mv ?N (tr ?a) ((!) T) j"
    using reg_solver_facts [where pinv = pinv, OF assms(1,2,3,5)] by blast
  obtain w2 u2 where fit2: "polynomial_fit_reg pinv X T M l2 = Inr (map w2 [0..<?n])"
    and RNE2: "\<And>j. j < ?n \<Longrightarrow>
        mv ?N (tr ?a) (mv ?n ?a w2) j + l2 * real ?N * w2 j = mv ?N (tr ?a) ((!) T) j"
    using reg_solver_facts [where pinv = pinv, OF assms(1,2) l2 assms(6)] by blast
  have "l2norm (map w2 [0..<?n]) \<le> l2norm (map w1 [0..<?n])"
  proof (cases "l1 * real ?N < l2 * real ?N")
    case True
    have "0 \<le> l1 * real ?N"
      using assms(3) by simp
    with RNE1 RNE2 have "ip ?n w2 w2 \<le> ip ?n w1 w1"
      using True by (rule ridge_shrinks)
    then show ?thesis
      by (simp add: l2norm_map)
  next
    case False
    moreover have "l1 * real ?N \<le> l2 * real ?N"
      using assms(4) by (simp add: mult_right_mono)
    ultimately have "ridge_matrix X M l1 = ridge_matrix X M l2"
      by (intro ridge_matrix_cong) simp
    then have "polynomial_fit_reg pinv X T M l1 = polynomial_fit_reg pinv X T M l2"
      using assms(1,2) penrose_shape [OF assms(6)]
      by (simp add: polynomial_fit_reg_unfold ridge_matrix_shape)
    then have "map w2 [0..<?n] = map w1 [0..<?n]"
      using fit1 fit2 by simp
    then show ?thesis
      by (simp only: order_refl)
  qed
  then show ?thesis
    using fit1 fit2 by simp
qed

theorem reg_shrinkage_witness:
  "(0 :: int) \<le> 1 \<and> length [1, 3 :: real] = length [0, 1 :: real] \<and> (0 :: real) \<le> 0 \<and>
   (0 :: real) \<le> 1 \<and>
   penrose (ridge_matrix [0, 1] 1 0) (pinv_2x2 (ridge_matrix [0, 1] 1 0)) \<and>
   penrose (ridge_matrix [0, 1] 1 1) (pinv_2x2 (ridge_matrix [0, 1] 1 1)) \<and>
   polynomial_fit_reg pinv_2x2 [0, 1] [1, 3] 1 0 = Inr [1, 2] \<and>
   polynomial_fit_reg pinv_2x2 [0, 1] [1, 3] 1 1 = Inr [9 / 11, 8 / 11] \<and>
   l2norm [9 / 11, 8 / 11] \<le> l2norm [1, 2]"
proof -
  have pen0: "penrose (ridge_matrix [0, 1] 1 0) (pinv_2x2 (ridge_matrix [0, 1] 1 0))"
    by (simp add: penrose_def pinv_2x2_def eval_arrays eval_sums)
  have pen1: "penrose (ridge_matrix [0, 1] 1 1) (pinv_2x2 (ridge_matrix [0, 1] 1 1))"
    by (simp add: penrose_def pinv_2x2_def eval_arrays eval_sums)
  have fit0: "polynomial_fit_reg pinv_2x2 [0, 1] [1, 3] 1 0 = Inr [1, 2]"
    by (simp add: polynomial_fit_reg_def pinv_2x2_def eval_arrays eval_sums)
  have fit1: "polynomial_fit_reg pinv_2x2 [0, 1] [1, 3] 1 1 = Inr [9 / 11, 8 / 11]"
    by (simp add: polynomial_fit_reg_def pinv_2x2_def eval_arrays eval_sums)
  from reg_shrinkage [where pinv = pinv_2x2 and T = "[1, 3]", OF _ _ _ _ pen0 pen1]
  obtain W1 W2 where "polynomial_fit_reg pinv_2x2 [0, 1] [1, 3] 1 0 = Inr W1"
    and "polynomial_fit_reg pinv_2x2 [0, 1] [1, 3] 1 1 = Inr W2"
    and "l2norm W2 \<le> l2norm W1"
    by auto
  with fit0 fit1 have "l2norm [9 / 11, 8 / 11] \<le> l2norm [1, 2]"
    by simp
  with pen0 pen1 fit0 fit1 show ?thesis
    by simp
qed

section \<open>Empty sample sets\<close>

text \<open>
  C9. On empty sample sets no operation fails: the notebook has no check of its inputs.
  The RMS error of an empty sample set is 0, and both solvers return zeros.
\<close>

theorem empty_samples_counterexample:
  "rms_error [] [] [1] = Inr 0 \<and>
   polynomial_fit pinv_rank1 [] [] 2 = Inr [0, 0, 0] \<and>
   polynomial_fit_reg pinv_rank1 [] [] 2 1 = Inr [0, 0, 0]"
  by (simp add: rms_error_def subtract_def polynomial_fit_def polynomial_fit_reg_def
      dot_def add_def scale_def eye_def transpose_m_def reshape_col_def ravel_def Let_def
      design_def power_outer_def arange_def pinv_rank1_def upt_rec)

text \<open>
  C9, as the code behaves. On empty sample sets and a degree \<open>M \<ge> 0\<close>, with a
  pseudo-inverse that returns an array of the transposed shape, the RMS error is 0 and
  both solvers return the zero vector of length \<open>M + 1\<close>.
\<close>

theorem empty_samples_no_error:
  assumes "0 \<le> M"
    and "nrows (pinv (design [] M)) = nat (M + 1)" and "ncols (pinv (design [] M)) = 0"
    and "nrows (pinv (ridge_matrix [] M lamb)) = nat (M + 1)"
    and "ncols (pinv (ridge_matrix [] M lamb)) = nat (M + 1)"
  shows "rms_error [] [] W = Inr 0 \<and>
         polynomial_fit pinv [] [] M = Inr (replicate (nat (M + 1)) 0) \<and>
         polynomial_fit_reg pinv [] [] M lamb = Inr (replicate (nat (M + 1)) 0)"
proof -
  have "rms_error [] [] W = Inr 0"
    by (simp add: rms_error_def subtract_def)
  moreover have "polynomial_fit pinv [] [] M = Inr (replicate (nat (M + 1)) 0)"
    using assms(2,3) by (simp add: polynomial_fit_unfold mv_no_columns map_replicate_const)
  moreover have "polynomial_fit_reg pinv [] [] M lamb = Inr (replicate (nat (M + 1)) 0)"
    using assms(1,4,5)
    by (simp add: polynomial_fit_reg_unfold mv_no_columns mv_zero_vector map_replicate_const)
  ultimately show ?thesis
    by simp
qed

theorem empty_samples_no_error_witness:
  "(0 :: int) \<le> 2 \<and>
   nrows (pinv_rank1 (design [] 2)) = nat (2 + 1) \<and> ncols (pinv_rank1 (design [] 2)) = 0 \<and>
   nrows (pinv_rank1 (ridge_matrix [] 2 1)) = nat (2 + 1) \<and>
   ncols (pinv_rank1 (ridge_matrix [] 2 1)) = nat (2 + 1) \<and>
   rms_error [] [] [7] = Inr 0 \<and>
   polynomial_fit pinv_rank1 [] [] 2 = Inr (replicate 3 0) \<and>
   polynomial_fit_reg pinv_rank1 [] [] 2 1 = Inr (replicate 3 0)"
proof -
  have shape: "nrows (pinv_rank1 (design [] 2)) = nat (2 + 1)"
    "ncols (pinv_rank1 (design [] 2)) = 0"
    "nrows (pinv_rank1 (ridge_matrix [] 2 1)) = nat (2 + 1)"
    "ncols (pinv_rank1 (ridge_matrix [] 2 1)) = nat (2 + 1)"
    by (simp_all add: pinv_rank1_def ridge_matrix_def design_def power_outer_def arange_def)
  show ?thesis
    using empty_samples_no_error [where pinv = pinv_rank1 and W = "[7]", OF _ shape] shape
    by simp
qed

end
